theory Spec2Isabelle
  imports Complex_Main
begin

section \<open>Data structures of \<open>src/app/page.tsx\<close>\<close>

text \<open>
  The recipe of a ticket is the decoded stream payload itself (\<open>recipe: recipeData\<close>), so
  it is kept as a JSON value. An object is an association list read with \<open>map_of\<close>: a
  decoded object has each key once, and should a list name a key twice, its first entry
  is the member.
\<close>

datatype json =
    JNull
  | JBool bool
  | JNumber real
  | JString string
  | JArray "json list"
  | JObject "(string \<times> json) list"

text \<open>
  What the code can throw: \<open>JSON.parse\<close> a \<open>SyntaxError\<close>, a property read on \<open>null\<close> or
  \<open>undefined\<close> and a call of something that is no function a \<open>TypeError\<close>, and React
  its error \<open>Objects are not valid as a React child\<close>.
\<close>

datatype js_error = SyntaxError | TypeError | InvalidChild

text \<open>
  \<open>OrderTicket\<close>. The field \<open>id\<close> is named \<open>id_t\<close> here, since \<open>id\<close> is the identity
  function of HOL. \<open>status\<close> is a JavaScript string, compared with \<open>===\<close> against the
  literals \<open>"pending"\<close>, \<open>"preparing"\<close> and \<open>"completed"\<close>.
\<close>

record ticket =
  id_t :: string
  orderNumber :: int
  recipe :: json
  status :: string
  timestamp :: int

datatype icon = Clock | Loader | CheckCircle

record badge =
  className :: string
  icon :: icon
  label :: string

section \<open>JavaScript and React on decoded values\<close>

text \<open>
  JavaScript's truthiness of a decoded value, and the property reads \<open>data.meal\<close> and
  \<open>recipe.steps\<close>: a \<open>TypeError\<close> on \<open>null\<close>, the member of an object (\<open>None\<close> is
  \<open>undefined\<close>), and \<open>undefined\<close> on an array, a string, a number or a boolean.
\<close>

fun truthy :: "json \<Rightarrow> bool" where
  "truthy JNull = False"
| "truthy (JBool b) = b"
| "truthy (JNumber x) = (x \<noteq> 0)"
| "truthy (JString str) = (str \<noteq> [])"
| "truthy (JArray _) = True"
| "truthy (JObject _) = True"

fun get_meal :: "json \<Rightarrow> js_error + json option" where
  "get_meal JNull = Inl TypeError"
| "get_meal (JObject members) = Inr (map_of members ''meal'')"
| "get_meal _ = Inr None"

fun get_steps :: "json \<Rightarrow> js_error + json option" where
  "get_steps JNull = Inl TypeError"
| "get_steps (JObject members) = Inr (map_of members ''steps'')"
| "get_steps _ = Inr None"

text \<open>
  A decoded value placed in JSX as \<open>{value}\<close>. React renders a string or a number as
  text, renders nothing for \<open>null\<close>, \<open>undefined\<close> and a boolean, renders the elements of
  an array one by one, and throws on an object.
\<close>

fun renderable :: "json \<Rightarrow> bool" where
  "renderable (JObject _) = False"
| "renderable (JArray elements) = list_all renderable elements"
| "renderable _ = True"

definition React_child :: "json option \<Rightarrow> js_error + unit" where
  "React_child v =
     (case v of
        None \<Rightarrow> Inr ()
      | Some j \<Rightarrow> if renderable j then Inr () else Inl InvalidChild)"

text \<open>
  \<open>list.map(x => <Component ... />)\<close> in JSX: every element is rendered, and the first
  one that throws ends the render.
\<close>

fun render_all :: "('a \<Rightarrow> js_error + 'b) \<Rightarrow> 'a list \<Rightarrow> js_error + 'b list" where
  "render_all f [] = Inr []"
| "render_all f (x # xs) =
     (case f x of
        Inl err \<Rightarrow> Inl err
      | Inr y \<Rightarrow> (case render_all f xs of Inl err \<Rightarrow> Inl err | Inr ys \<Rightarrow> Inr (y # ys)))"

section \<open>Utility functions\<close>

text \<open>
  \<open>createNewTicket\<close>. The test \<open>existingOrders.length > 0\<close> and the call
  \<open>Math.max(...existingOrders.map((o) => o.orderNumber))\<close> are one case distinction on the
  mapped list: \<open>Math.max\<close> is only reached with at least one argument, where it is the
  maximum of the arguments. \<open>crypto.randomUUID()\<close> and \<open>Date.now()\<close> read the
  environment; their results are the arguments \<open>uuid\<close> and \<open>now\<close>. The page is taken to run
  where \<open>crypto.randomUUID\<close> exists, as it does on \<open>localhost\<close>.

  \<open>orderNumber\<close> is a JavaScript number, a double. The model has an \<open>int\<close>, which agrees
  with the code while the numbers stay below \<open>2^53\<close> in absolute value and the list is
  short enough to be spread into an argument list (beyond that the code rounds, or
  throws a \<open>RangeError\<close>). The component only ever calls the function with the empty
  list, as the section on events shows, where neither limit is met.
\<close>

definition createNewTicket :: "ticket list \<Rightarrow> json \<Rightarrow> string \<Rightarrow> int \<Rightarrow> ticket" where
  "createNewTicket existingOrders recipeData uuid now =
     (let nextOrderNumber =
            (case map orderNumber existingOrders of
               [] \<Rightarrow> 101
             | n # ns \<Rightarrow> fold max ns n + 1)
      in \<lparr>id_t = uuid, orderNumber = nextOrderNumber, recipe = recipeData,
          status = ''pending'', timestamp = now\<rparr>)"

text \<open>\<open>getStatusBadge\<close>: a \<open>switch\<close> with three cases and a \<open>default\<close>.\<close>

definition getStatusBadge :: "string \<Rightarrow> badge" where
  "getStatusBadge st =
     (if st = ''pending'' then
        \<lparr>className = ''bg-red-100 text-red-700'', icon = Clock, label = ''Pending''\<rparr>
      else if st = ''preparing'' then
        \<lparr>className = ''bg-yellow-100 text-yellow-700'', icon = Loader, label = ''In Progress''\<rparr>
      else if st = ''completed'' then
        \<lparr>className = ''bg-green-100 text-green-700'', icon = CheckCircle, label = ''Completed''\<rparr>
      else
        \<lparr>className = ''bg-gray-100 text-gray-500'', icon = Clock, label = ''Unknown''\<rparr>)"

section \<open>Subcomponents\<close>

text \<open>
  \<open>TicketItem\<close>. Its JSX holds \<open>{ticket.recipe.meal}\<close>, so rendering it throws when the
  meal is no valid React child. What is kept of the rendered item is the id its
  \<open>onClick\<close> passes to \<open>onSelect\<close>.
\<close>

definition TicketItem :: "ticket \<Rightarrow> js_error + string" where
  "TicketItem ticket =
     (case get_meal (recipe ticket) of
        Inl err \<Rightarrow> Inl err
      | Inr meal \<Rightarrow>
          (case React_child meal of Inl err \<Rightarrow> Inl err | Inr _ \<Rightarrow> Inr (id_t ticket)))"

text \<open>
  \<open>RecipeDetail\<close>. Without an order the placeholder is rendered, which has no button.
  With an order, \<open>order.recipe.steps.map(...)\<close> throws a \<open>TypeError\<close> unless \<open>steps\<close> is an
  array (\<open>undefined\<close> and \<open>null\<close> have no properties; a string, number, boolean or object
  decoded from JSON has no function \<open>map\<close>), and each step is placed in JSX as
  \<open>{step}\<close>. What is kept of the rendered panel are its buttons: each with its caption
  and the call \<open>onUpdateStatus(id, newStatus)\<close> its \<open>onClick\<close> makes. Both buttons are
  guarded by \<open>order.status !== "completed"\<close>. The heading reads \<open>order.meal\<close>, which a
  ticket does not have: \<open>undefined\<close>, rendered as nothing.
\<close>

record button =
  caption :: string
  onClick :: "string \<times> string"

definition RecipeDetail :: "ticket option \<Rightarrow> js_error + button list" where
  "RecipeDetail order_opt =
     (case order_opt of
        None \<Rightarrow> Inr []
      | Some order \<Rightarrow>
          (case get_steps (recipe order) of
             Inl err \<Rightarrow> Inl err
           | Inr (Some (JArray steps)) \<Rightarrow>
               (case render_all (\<lambda>step. React_child (Some step)) steps of
                  Inl err \<Rightarrow> Inl err
                | Inr _ \<Rightarrow>
                    Inr ((if status order \<noteq> ''completed'' then
                            [\<lparr>caption = (if status order = ''pending'' then ''Start Cooking''
                                          else ''Pause''),
                              onClick = (id_t order,
                                         if status order = ''pending'' then ''preparing''
                                         else ''pending'')\<rparr>]
                          else [])
                         @
                         (if status order \<noteq> ''completed'' then
                            [\<lparr>caption = ''Mark as Complete'',
                              onClick = (id_t order, ''completed'')\<rparr>]
                          else [])))
           | Inr _ \<Rightarrow> Inl TypeError))"

section \<open>The App component\<close>

subsection \<open>Hooks\<close>

text \<open>
  A \<open>useMemo\<close> cell keeps the dependency array of the render that last computed it and the
  value computed then. On a render the value is computed again only when there is no
  cell yet or the dependency array differs from the stored one. React compares the
  entries with \<open>Object.is\<close>; the model compares values. For the calculations of this
  component, which never mutate an array in place, equal references are equal values,
  and a calculation that reads only its dependencies gives equal results on equal
  values.
\<close>

datatype dep = DepOrders "ticket list" | DepSelectedOrderId "string option"

type_synonym 'a memo = "(dep list \<times> 'a) option"

definition useMemo :: "'a memo \<Rightarrow> (unit \<Rightarrow> 'a) \<Rightarrow> dep list \<Rightarrow> 'a memo \<times> 'a" where
  "useMemo cell calculateValue dependencies =
     (case cell of
        None \<Rightarrow> (let v = calculateValue () in (Some (dependencies, v), v))
      | Some (prev, cached) \<Rightarrow>
          if prev = dependencies then (cell, cached)
          else (let v = calculateValue () in (Some (dependencies, v), v)))"

record memos =
  memo_selectedOrder :: "ticket option memo"
  memo_pendingOrders :: "ticket list memo"
  memo_activeOrders :: "ticket list memo"
  memo_completedOrders :: "ticket list memo"

record view =
  selectedOrder :: "ticket option"
  pendingOrders :: "ticket list"
  activeOrders :: "ticket list"
  completedOrders :: "ticket list"

datatype console_entry =
    LogMeal "json option"
  | LogNewTicket ticket
  | LogOrders "ticket list"
  | ErrorFailedToParse js_error

text \<open>
  The state of the mounted component: the two \<open>useState\<close> variables, the callbacks
  scheduled with \<open>setTimeout\<close> and not yet run (each is \<open>() => setSelectedOrderId(null)\<close>,
  so only the delay is kept), what was written to the console, the \<open>useMemo\<close> cells and
  the values the body of \<open>App\<close> computed at the last render.
\<close>

record app =
  orders :: "ticket list"
  selectedOrderId :: "string option"
  timers :: "nat list"
  console :: "console_entry list"
  hooks :: memos
  rendered :: view

text \<open>
  The body of \<open>App\<close> up to its \<open>return\<close>: the four \<open>useMemo\<close> calls with their dependency
  arrays as the source gives them, \<open>[orders, selectedOrderId]\<close>, \<open>[orders]\<close>, \<open>[orders]\<close>
  and \<open>[]\<close>. \<open>orders.find(...) || null\<close> is \<open>List.find\<close>, with \<open>None\<close> for \<open>null\<close>: a ticket
  found is an object and so truthy. Nothing here can throw.
\<close>

definition App_hooks :: "app \<Rightarrow> app" where
  "App_hooks s =
     (let (c1, v1) = useMemo (memo_selectedOrder (hooks s))
                       (\<lambda>_. List.find (\<lambda>t. Some (id_t t) = selectedOrderId s) (orders s))
                       [DepOrders (orders s), DepSelectedOrderId (selectedOrderId s)];
          (c2, v2) = useMemo (memo_pendingOrders (hooks s))
                       (\<lambda>_. filter (\<lambda>t. status t = ''pending'') (orders s))
                       [DepOrders (orders s)];
          (c3, v3) = useMemo (memo_activeOrders (hooks s))
                       (\<lambda>_. filter (\<lambda>t. status t = ''preparing'') (orders s))
                       [DepOrders (orders s)];
          (c4, v4) = useMemo (memo_completedOrders (hooks s))
                       (\<lambda>_. filter (\<lambda>t. status t = ''completed'') (orders s))
                       []
      in s\<lparr>hooks := \<lparr>memo_selectedOrder = c1, memo_pendingOrders = c2,
                     memo_activeOrders = c3, memo_completedOrders = c4\<rparr>,
           rendered := \<lparr>selectedOrder = v1, pendingOrders = v2,
                        activeOrders = v3, completedOrders = v4\<rparr>\<rparr>)"

text \<open>
  The JSX that \<open>App\<close> returns, in document order: a \<open>TicketItem\<close> for each ticket of
  \<open>activeOrders\<close> and of \<open>pendingOrders\<close>, \<open>RecipeDetail\<close> for \<open>selectedOrder\<close>, and for each
  ticket of \<open>completedOrders\<close> a \<open>span\<close> that holds \<open>{order.recipe.meal}\<close>. The guards
  \<open>list.length > 0 &&\<close> only leave out what is empty anyway.
\<close>

definition CompletedSpan :: "ticket \<Rightarrow> js_error + unit" where
  "CompletedSpan order =
     (case get_meal (recipe order) of Inl err \<Rightarrow> Inl err | Inr meal \<Rightarrow> React_child meal)"

definition App_children :: "view \<Rightarrow> js_error + unit" where
  "App_children v =
     (case render_all TicketItem (activeOrders v) of
        Inl err \<Rightarrow> Inl err
      | Inr _ \<Rightarrow>
     (case render_all TicketItem (pendingOrders v) of
        Inl err \<Rightarrow> Inl err
      | Inr _ \<Rightarrow>
     (case RecipeDetail (selectedOrder v) of
        Inl err \<Rightarrow> Inl err
      | Inr _ \<Rightarrow>
     (case render_all CompletedSpan (completedOrders v) of
        Inl err \<Rightarrow> Inl err
      | Inr _ \<Rightarrow> Inr ()))))"

text \<open>
  One render of \<open>App\<close>. There is no error boundary: when a child throws, React unmounts
  the component and its state is gone, which is the result \<open>Inl\<close>.
\<close>

definition App_render :: "app \<Rightarrow> js_error + app" where
  "App_render s =
     (let s' = App_hooks s
      in case App_children (rendered s') of Inl err \<Rightarrow> Inl err | Inr _ \<Rightarrow> Inr s')"

text \<open>
  The state before the first render: \<open>useState([])\<close>, \<open>useState(null)\<close>, no cell, nothing
  rendered. \<open>mount\<close> is the first render.
\<close>

definition initial :: app where
  "initial =
     \<lparr>orders = [], selectedOrderId = None, timers = [], console = [],
      hooks = \<lparr>memo_selectedOrder = None, memo_pendingOrders = None,
                memo_activeOrders = None, memo_completedOrders = None\<rparr>,
      rendered = \<lparr>selectedOrder = None, pendingOrders = [],
                   activeOrders = [], completedOrders = []\<rparr>\<rparr>"

definition mount :: "js_error + app" where
  "mount = App_render initial"

subsection \<open>Handlers\<close>

text \<open>
  \<open>handleUpdateStatus\<close>: the functional update of \<open>orders\<close> and, for \<open>"completed"\<close>,
  \<open>setTimeout(() => setSelectedOrderId(null), 500)\<close>.
\<close>

definition handleUpdateStatus :: "string \<Rightarrow> string \<Rightarrow> app \<Rightarrow> app" where
  "handleUpdateStatus i newStatus s =
     (let s1 = s\<lparr>orders :=
                   map (\<lambda>order. if id_t order = i then order\<lparr>status := newStatus\<rparr> else order)
                       (orders s)\<rparr>
      in if newStatus = ''completed'' then s1\<lparr>timers := timers s1 @ [500]\<rparr> else s1)"

text \<open>
  \<open>eventSource.onmessage\<close>. \<open>parsed\<close> is the outcome of \<open>JSON.parse(event.data)\<close>, with
  \<open>Inl SyntaxError\<close> when it throws. \<open>orders_closure\<close> is the constant \<open>orders\<close> the handler
  closes over. Whatever is thrown inside \<open>try\<close> ends in \<open>console.error\<close>.
\<close>

definition onmessage :: "ticket list \<Rightarrow> js_error + json \<Rightarrow> string \<Rightarrow> int \<Rightarrow> app \<Rightarrow> app" where
  "onmessage orders_closure parsed uuid now s =
     (case parsed of
        Inl err \<Rightarrow> s\<lparr>console := console s @ [ErrorFailedToParse err]\<rparr>
      | Inr data \<Rightarrow>
          (case get_meal data of
             Inl err \<Rightarrow> s\<lparr>console := console s @ [ErrorFailedToParse err]\<rparr>
           | Inr meal \<Rightarrow>
               (let s1 = s\<lparr>console := console s @ [LogMeal meal]\<rparr>
                in if truthy data \<and> (case meal of None \<Rightarrow> False | Some m \<Rightarrow> truthy m) then
                     (let newTicket = createNewTicket orders_closure data uuid now
                      in s1\<lparr>console := console s1 @ [LogNewTicket newTicket, LogOrders orders_closure],
                            orders := orders s1 @ [newTicket],
                            selectedOrderId := Some (id_t newTicket)\<rparr>)
                   else s1)))"

subsection \<open>Events\<close>

text \<open>
  What can happen to the mounted component: a stream message (with the outcome of
  decoding it and the values \<open>crypto.randomUUID()\<close> and \<open>Date.now()\<close> would return), a
  click on a \<open>TicketItem\<close>, a click on a button of \<open>RecipeDetail\<close>, and the oldest
  scheduled timeout running.

  The effect that installs \<open>onmessage\<close> has the dependency array \<open>[]\<close>: it runs once,
  after the first render, and the \<open>orders\<close> its handler reads is the constant of that
  render, the initial \<open>[]\<close> of \<open>useState\<close>.

  A \<open>TicketItem\<close> exists for each ticket of the rendered \<open>activeOrders\<close> and
  \<open>pendingOrders\<close>; a button exists when \<open>RecipeDetail\<close> renders it for the rendered
  \<open>selectedOrder\<close>. A click on something that is not rendered does not happen: the state
  stays as it is.
\<close>

datatype event =
    Message "js_error + json" string int
  | ClickTicket string
  | ClickButton string
  | Timeout

fun handle :: "event \<Rightarrow> app \<Rightarrow> app" where
  "handle (Message parsed uuid now) s = onmessage (orders initial) parsed uuid now s"
| "handle (ClickTicket i) s =
     (if i \<in> set (map id_t (activeOrders (rendered s) @ pendingOrders (rendered s)))
      then s\<lparr>selectedOrderId := Some i\<rparr> else s)"
| "handle (ClickButton c) s =
     (case RecipeDetail (selectedOrder (rendered s)) of
        Inl err \<Rightarrow> s
      | Inr buttons \<Rightarrow>
          (case List.find (\<lambda>b. caption b = c) buttons of
             None \<Rightarrow> s
           | Some b \<Rightarrow> handleUpdateStatus (fst (onClick b)) (snd (onClick b)) s))"
| "handle Timeout s =
     (case timers s of
        [] \<Rightarrow> s
      | d # ds \<Rightarrow> s\<lparr>timers := ds, selectedOrderId := None\<rparr>)"

text \<open>
  Every state change is followed by a render, which may throw. Once the component is
  unmounted nothing happens any more: the cleanup of the effect has closed the event
  source, there is nothing left to click, and the callback of a timeout sets the state
  of a component that is gone.
\<close>

definition step :: "event \<Rightarrow> app \<Rightarrow> js_error + app" where
  "step ev s = App_render (handle ev s)"

definition run :: "event list \<Rightarrow> js_error + app" where
  "run evs = fold (\<lambda>ev r. case r of Inl err \<Rightarrow> Inl err | Inr s \<Rightarrow> step ev s) evs mount"

text \<open>An event that does not come from the stream: a click or a timeout.\<close>

fun local_event :: "event \<Rightarrow> bool" where
  "local_event (Message _ _ _) = False"
| "local_event _ = True"

section \<open>What holds of every rendered state\<close>

text \<open>
  A \<open>useMemo\<close> cell whose calculation reads only its dependencies holds the value of the
  calculation at the stored dependencies. This is so for \<open>selectedOrder\<close>,
  \<open>pendingOrders\<close> and \<open>activeOrders\<close>. The calculation of \<open>completedOrders\<close> reads
  \<open>orders\<close>, which is not among its dependencies, so nothing of the kind is stated for
  its cell.
\<close>

fun selectedOrder_ok :: "ticket option memo \<Rightarrow> bool" where
  "selectedOrder_ok (Some ([DepOrders os, DepSelectedOrderId sel], v)) =
     (v = List.find (\<lambda>t. Some (id_t t) = sel) os)"
| "selectedOrder_ok _ = True"

fun filter_ok :: "string \<Rightarrow> ticket list memo \<Rightarrow> bool" where
  "filter_ok st (Some ([DepOrders os], v)) = (v = filter (\<lambda>t. status t = st) os)"
| "filter_ok st _ = True"

definition hooks_ok :: "memos \<Rightarrow> bool" where
  "hooks_ok h =
     (selectedOrder_ok (memo_selectedOrder h) \<and> filter_ok ''pending'' (memo_pendingOrders h)
      \<and> filter_ok ''preparing'' (memo_activeOrders h))"

text \<open>
  What the proofs below carry along every run of the mounted component. The state is
  the result of its own render, and the cell of \<open>completedOrders\<close> still holds the empty
  list of the first render. Every ticket of the store can be rendered as a
  \<open>TicketItem\<close>: it was pending, and so rendered, when it came in. The first ticket with
  a given id, the one \<open>orders.find\<close> returns, can be rendered by \<open>RecipeDetail\<close>, and it
  is completed when any ticket with its id is: a status update reaches all tickets of
  one id at once and is only offered for the first of them.
\<close>

definition first_with_id :: "string \<Rightarrow> ticket list \<Rightarrow> ticket option" where
  "first_with_id i os = List.find (\<lambda>t. id_t t = i) os"

definition store_ok :: "ticket list \<Rightarrow> bool" where
  "store_ok os \<longleftrightarrow>
     (\<forall>t \<in> set os. \<not> isl (TicketItem t))
     \<and> (\<forall>i u. first_with_id i os = Some u \<longrightarrow> \<not> isl (RecipeDetail (Some u)))
     \<and> (\<forall>t \<in> set os. status t = ''completed'' \<longrightarrow>
           (\<forall>u. first_with_id (id_t t) os = Some u \<longrightarrow> status u = ''completed''))"

definition mounted_ok :: "app \<Rightarrow> bool" where
  "mounted_ok s \<longleftrightarrow>
     hooks_ok (hooks s) \<and> App_hooks s = s
     \<and> memo_completedOrders (hooks s) = Some ([], [])
     \<and> App_children (rendered s) = Inr ()
     \<and> store_ok (orders s)"

section \<open>Concrete inputs\<close>

text \<open>
  The payload of the scenario of the specification, a payload with a meal and no steps,
  and states of the mounted component, each given by the handlers and renders that lead
  to it.
\<close>

definition panini :: json where
  "panini = JObject [(''meal'', JString ''Panini''),
                     (''steps'', JArray [JString ''Toast bread'', JString ''Add filling''])]"

definition soup :: json where
  "soup = JObject [(''meal'', JString ''Soup'')]"

definition one_pending :: app where
  "one_pending = App_hooks (handle (Message (Inr panini) ''a'' 1) (App_hooks initial))"

definition two_pending :: app where
  "two_pending =
     App_hooks (handle (ClickTicket ''a'')
       (App_hooks (handle (Message (Inr panini) ''b'' 2) one_pending)))"

definition one_completed :: app where
  "one_completed = App_hooks (handle (ClickButton ''Mark as Complete'') one_pending)"

definition completed_b_selected_a :: app where
  "completed_b_selected_a =
     App_hooks (handle (ClickTicket ''a'')
       (App_hooks (handle (ClickButton ''Mark as Complete'')
         (App_hooks (handle (Message (Inr panini) ''b'' 2) one_pending)))))"

definition completed_then_more :: "event list" where
  "completed_then_more =
     [ClickButton ''Start Cooking'', ClickButton ''Pause'', ClickButton ''Mark as Complete'',
      Message (Inr panini) ''b'' 2, ClickButton ''Start Cooking'', ClickTicket ''a'', Timeout,
      ClickTicket ''b'', ClickButton ''Mark as Complete'']"

definition clicks_after :: "event list" where
  "clicks_after =
     [ClickButton ''Start Cooking'', ClickButton ''Pause'', ClickButton ''Mark as Complete'',
      ClickTicket ''a'', Timeout]"

section \<open>Lemmas on the hooks and the handlers\<close>

lemma useMemo_again: "useMemo (fst (useMemo cell f d)) f d = useMemo cell f d"
  by (auto simp: useMemo_def Let_def split: option.splits)

lemma useMemo_snd_fst: "fst (useMemo cell f d) = Some (d, snd (useMemo cell f d))"
  by (auto simp: useMemo_def Let_def split: option.splits)

lemma App_hooks_fields [simp]:
  "orders (App_hooks s) = orders s"
  "selectedOrderId (App_hooks s) = selectedOrderId s"
  "timers (App_hooks s) = timers s"
  "console (App_hooks s) = console s"
  by (simp_all add: App_hooks_def Let_def case_prod_beta)

lemma App_hooks_idem: "App_hooks (App_hooks s) = App_hooks s"
  by (simp add: App_hooks_def Let_def case_prod_beta useMemo_again)

lemma useMemo_selectedOrder:
  "selectedOrder_ok cell \<Longrightarrow>
   snd (useMemo cell (\<lambda>_. List.find (\<lambda>t. Some (id_t t) = sel) os) [DepOrders os, DepSelectedOrderId sel])
     = List.find (\<lambda>t. Some (id_t t) = sel) os"
  by (auto simp: useMemo_def Let_def split: option.splits)

lemma useMemo_filter:
  "filter_ok st cell \<Longrightarrow>
   snd (useMemo cell (\<lambda>_. filter (\<lambda>t. status t = st) os) [DepOrders os])
     = filter (\<lambda>t. status t = st) os"
  by (auto simp: useMemo_def Let_def split: option.splits)

lemma hooks_selectedOrder:
  "hooks_ok (hooks s) \<Longrightarrow>
   selectedOrder (rendered (App_hooks s)) = List.find (\<lambda>t. Some (id_t t) = selectedOrderId s) (orders s)"
  by (simp add: App_hooks_def Let_def case_prod_beta hooks_ok_def useMemo_selectedOrder)

lemma hooks_pendingOrders:
  "hooks_ok (hooks s) \<Longrightarrow>
   pendingOrders (rendered (App_hooks s)) = filter (\<lambda>t. status t = ''pending'') (orders s)"
  by (simp add: App_hooks_def Let_def case_prod_beta hooks_ok_def useMemo_filter)

lemma hooks_activeOrders:
  "hooks_ok (hooks s) \<Longrightarrow>
   activeOrders (rendered (App_hooks s)) = filter (\<lambda>t. status t = ''preparing'') (orders s)"
  by (simp add: App_hooks_def Let_def case_prod_beta hooks_ok_def useMemo_filter)

lemma hooks_completedOrders:
  "memo_completedOrders (hooks s) = Some ([], []) \<Longrightarrow>
   completedOrders (rendered (App_hooks s)) = []
   \<and> memo_completedOrders (hooks (App_hooks s)) = Some ([], [])"
  by (simp add: App_hooks_def Let_def case_prod_beta useMemo_def)

lemma hooks_ok_App_hooks: "hooks_ok (hooks s) \<Longrightarrow> hooks_ok (hooks (App_hooks s))"
  by (simp add: App_hooks_def Let_def case_prod_beta hooks_ok_def useMemo_snd_fst
        useMemo_selectedOrder useMemo_filter)

lemma App_hooks_console:
  "App_hooks (s\<lparr>console := c\<rparr>) = (App_hooks s)\<lparr>console := c\<rparr>"
  by (simp add: App_hooks_def Let_def case_prod_beta)

lemma handleUpdateStatus_fields [simp]:
  "hooks (handleUpdateStatus i st s) = hooks s"
  "rendered (handleUpdateStatus i st s) = rendered s"
  "selectedOrderId (handleUpdateStatus i st s) = selectedOrderId s"
  "console (handleUpdateStatus i st s) = console s"
  "orders (handleUpdateStatus i st s) =
     map (\<lambda>order. if id_t order = i then order\<lparr>status := st\<rparr> else order) (orders s)"
  "timers (handleUpdateStatus i st s) = (if st = ''completed'' then timers s @ [500] else timers s)"
  by (simp_all add: handleUpdateStatus_def Let_def)

lemma onmessage_hooks [simp]:
  "hooks (onmessage oc p u n s) = hooks s"
  "rendered (onmessage oc p u n s) = rendered s"
  "timers (onmessage oc p u n s) = timers s"
  by (simp_all add: onmessage_def Let_def split: sum.splits)

lemma handle_hooks [simp]: "hooks (handle ev s) = hooks s"
  by (cases ev) (simp_all split: option.splits list.splits sum.splits)

section \<open>Lemmas on rendering\<close>

lemma render_all_ok: "\<not> isl (render_all f xs) \<longleftrightarrow> (\<forall>x \<in> set xs. \<not> isl (f x))"
  by (induction xs) (auto split: sum.splits)

lemma App_children_ok:
  "App_children v = Inr () \<longleftrightarrow>
     (\<forall>t \<in> set (activeOrders v). \<not> isl (TicketItem t))
     \<and> (\<forall>t \<in> set (pendingOrders v). \<not> isl (TicketItem t))
     \<and> \<not> isl (RecipeDetail (selectedOrder v))
     \<and> (\<forall>t \<in> set (completedOrders v). \<not> isl (CompletedSpan t))"
proof -
  have r: "(\<exists>y. render_all f xs = Inr y) \<longleftrightarrow> (\<forall>x \<in> set xs. \<not> isl (f x))" for f :: "ticket \<Rightarrow> js_error + 'b" and xs
    using render_all_ok [of f xs] by (cases "render_all f xs") auto
  have d: "(\<exists>y. RecipeDetail o' = Inr y) \<longleftrightarrow> \<not> isl (RecipeDetail o')" for o'
    by (cases "RecipeDetail o'") auto
  show ?thesis
    unfolding App_children_def r [symmetric] d [symmetric]
    by (auto split: sum.splits)
qed

lemma App_render_Inr:
  "App_render s = Inr s' \<longleftrightarrow> s' = App_hooks s \<and> App_children (rendered (App_hooks s)) = Inr ()"
  by (auto simp: App_render_def Let_def split: sum.splits)

lemma step_Inr:
  "step ev s = Inr s' \<longleftrightarrow>
     s' = App_hooks (handle ev s) \<and> App_children (rendered (App_hooks (handle ev s))) = Inr ()"
  by (simp add: step_def App_render_Inr)

lemma TicketItem_status [simp]: "TicketItem (t\<lparr>status := st\<rparr>) = TicketItem t"
  by (simp add: TicketItem_def split: sum.splits)

lemma RecipeDetail_status [simp]:
  "isl (RecipeDetail (Some (t\<lparr>status := st\<rparr>))) = isl (RecipeDetail (Some t))"
  by (simp add: RecipeDetail_def split: sum.splits option.splits json.splits)

lemma mount_state: "mount = Inr (App_hooks initial)"
  by (simp add: mount_def App_render_def App_children_def RecipeDetail_def initial_def
        App_hooks_def useMemo_def Let_def)

lemma run_Nil [simp]: "run [] = mount"
  by (simp add: run_def)

lemma run_snoc:
  "run (evs @ [ev]) = (case run evs of Inl err \<Rightarrow> Inl err | Inr s \<Rightarrow> step ev s)"
  by (simp add: run_def)

lemma run_snoc_Inr: "run evs = Inr s \<Longrightarrow> run (evs @ [ev]) = step ev s"
  by (simp add: run_snoc)

lemma run_snoc_Inr_iff:
  "run (evs @ [ev]) = Inr s' \<longleftrightarrow> (\<exists>s. run evs = Inr s \<and> step ev s = Inr s')"
  by (simp add: run_snoc split: sum.splits)

lemma run_append_Inr:
  "run (evs @ evs') = Inr s' \<Longrightarrow> \<exists>s. run evs = Inr s"
proof (induction evs' arbitrary: s' rule: rev_induct)
  case Nil
  then show ?case by simp
next
  case (snoc ev evs')
  from snoc.prems obtain s1 where "run (evs @ evs') = Inr s1"
    unfolding append_assoc [symmetric] run_snoc_Inr_iff by blast
  then show ?case by (rule snoc.IH)
qed

section \<open>Lemmas on the store\<close>

lemma first_with_id_Some:
  assumes "first_with_id i os = Some u"
  shows "u \<in> set os" and "id_t u = i"
proof -
  from assms obtain k where "k < length os" "id_t (os ! k) = i" "u = os ! k"
    unfolding first_with_id_def find_Some_iff by blast
  then show "u \<in> set os" and "id_t u = i" by simp_all
qed

lemma first_with_id_exists:
  "t \<in> set os \<Longrightarrow> \<exists>u. first_with_id (id_t t) os = Some u"
  unfolding first_with_id_def by (cases "List.find (\<lambda>x. id_t x = id_t t) os") (auto simp: find_None_iff)

lemma first_with_id_append:
  "first_with_id i (os @ [nt]) =
     (case first_with_id i os of
        Some u \<Rightarrow> Some u
      | None \<Rightarrow> if id_t nt = i then Some nt else None)"
  unfolding first_with_id_def by (induction os) simp_all

lemma first_with_id_update:
  "first_with_id j (map (\<lambda>order. if id_t order = i then order\<lparr>status := st\<rparr> else order) os)
     = map_option (\<lambda>order. if id_t order = i then order\<lparr>status := st\<rparr> else order)
         (first_with_id j os)"
  unfolding first_with_id_def by (induction os) simp_all

lemma find_selected:
  "List.find (\<lambda>t. Some (id_t t) = sel) os
     = (case sel of None \<Rightarrow> None | Some i \<Rightarrow> first_with_id i os)"
proof (cases sel)
  case None
  then show ?thesis by (simp add: find_None_iff)
next
  case (Some i)
  have "(\<lambda>t. Some (id_t t) = Some i) = (\<lambda>t. id_t t = i)"
    by auto
  with Some show ?thesis by (simp add: first_with_id_def)
qed

lemma find_selected_Some:
  assumes "List.find (\<lambda>t. Some (id_t t) = sel) os = Some u"
  shows "sel = Some (id_t u)" and "first_with_id (id_t u) os = Some u" and "u \<in> set os"
proof -
  from assms obtain i where i: "sel = Some i" "first_with_id i os = Some u"
    unfolding find_selected by (cases sel) auto
  from first_with_id_Some [OF i(2)] i
  show "sel = Some (id_t u)" and "first_with_id (id_t u) os = Some u" and "u \<in> set os"
    by simp_all
qed

lemma RecipeDetail_None [simp]: "RecipeDetail None = Inr []"
  by (simp add: RecipeDetail_def)

lemma store_ok_detail:
  assumes "store_ok os"
  shows "\<not> isl (RecipeDetail (List.find (\<lambda>t. Some (id_t t) = sel) os))"
proof (cases "List.find (\<lambda>t. Some (id_t t) = sel) os")
  case None
  then show ?thesis by simp
next
  case (Some u)
  from find_selected_Some(2) [OF Some] assms show ?thesis
    unfolding store_ok_def Some by blast
qed

lemma store_ok_Nil: "store_ok []"
  by (simp add: store_ok_def first_with_id_def)

lemma store_ok_append:
  assumes ok: "store_ok os"
    and item: "\<not> isl (TicketItem nt)"
    and pending: "status nt \<noteq> ''completed''"
    and detail: "\<not> isl (RecipeDetail (first_with_id (id_t nt) (os @ [nt])))"
  shows "store_ok (os @ [nt])"
proof -
  have j1: "\<not> isl (TicketItem t)" if "t \<in> set (os @ [nt])" for t
    using that ok item unfolding store_ok_def by auto
  have j2: "\<not> isl (RecipeDetail (Some u))" if u: "first_with_id i (os @ [nt]) = Some u" for i u
  proof (cases "first_with_id i os")
    case None
    with u have "id_t nt = i" "u = nt"
      unfolding first_with_id_append by (simp_all split: if_splits)
    with u detail show ?thesis by simp
  next
    case (Some u')
    with u have "u = u'" unfolding first_with_id_append by simp
    with Some ok show ?thesis unfolding store_ok_def by blast
  qed
  have k: "status u = ''completed''"
    if t: "t \<in> set (os @ [nt])" "status t = ''completed''"
      and u: "first_with_id (id_t t) (os @ [nt]) = Some u" for t u
  proof -
    from t pending have t_old: "t \<in> set os" by auto
    then obtain u' where u': "first_with_id (id_t t) os = Some u'"
      using first_with_id_exists by blast
    with u have "u = u'" unfolding first_with_id_append by simp
    with u' t_old t(2) ok show ?thesis unfolding store_ok_def by blast
  qed
  show ?thesis
    unfolding store_ok_def using j1 j2 k by blast
qed

lemma completed_not_target:
  assumes ok: "store_ok os"
    and first: "first_with_id i os = Some order"
    and open_order: "status order \<noteq> ''completed''"
    and t: "t \<in> set os" "status t = ''completed''"
  shows "id_t t \<noteq> i"
proof
  assume "id_t t = i"
  with first have "first_with_id (id_t t) os = Some order" by simp
  with ok t have "status order = ''completed''"
    unfolding store_ok_def by blast
  with open_order show False by simp
qed

lemma store_ok_update:
  assumes ok: "store_ok os"
    and first: "first_with_id i os = Some order"
    and open_order: "status order \<noteq> ''completed''"
  shows "store_ok (map (\<lambda>order. if id_t order = i then order\<lparr>status := st\<rparr> else order) os)"
proof -
  define f :: "ticket \<Rightarrow> ticket"
    where "f = (\<lambda>order. if id_t order = i then order\<lparr>status := st\<rparr> else order)"
  have f_item: "TicketItem (f t) = TicketItem t" and f_id: "id_t (f t) = id_t t"
    and f_detail: "isl (RecipeDetail (Some (f t))) = isl (RecipeDetail (Some t))" for t
    by (simp_all add: f_def)
  have first_f: "first_with_id j (map f os) = map_option f (first_with_id j os)" for j
    unfolding f_def by (rule first_with_id_update)
  have j1: "\<not> isl (TicketItem t')" if "t' \<in> set (map f os)" for t'
  proof -
    from that obtain t where "t \<in> set os" "t' = f t" by auto
    with ok show ?thesis unfolding store_ok_def by (simp add: f_item)
  qed
  have j2: "\<not> isl (RecipeDetail (Some u'))" if "first_with_id j (map f os) = Some u'" for j u'
  proof -
    from that obtain u where u: "first_with_id j os = Some u" "u' = f u"
      unfolding first_f by auto
    with ok have "\<not> isl (RecipeDetail (Some u))" unfolding store_ok_def by blast
    with u(2) show ?thesis by (simp add: f_detail)
  qed
  have k: "status u' = ''completed''"
    if t': "t' \<in> set (map f os)" "status t' = ''completed''"
      and u': "first_with_id (id_t t') (map f os) = Some u'" for t' u'
  proof -
    from t'(1) obtain t where t: "t \<in> set os" "t' = f t" by auto
    from u' obtain u where u: "first_with_id (id_t t) os = Some u" "u' = f u"
      unfolding first_f t(2) f_id by auto
    have u_id: "id_t u = id_t t"
      by (rule first_with_id_Some(2) [OF u(1)])
    show ?thesis
    proof (cases "id_t t = i")
      case True
      with t'(2) t(2) have "st = ''completed''" by (simp add: f_def)
      with True u_id u(2) show ?thesis by (simp add: f_def)
    next
      case False
      with t'(2) t(2) have "status t = ''completed''" by (simp add: f_def)
      with ok t(1) u(1) have "status u = ''completed''" unfolding store_ok_def by blast
      with False u_id u(2) show ?thesis by (simp add: f_def)
    qed
  qed
  show ?thesis
    unfolding store_ok_def f_def [symmetric] using j1 j2 k by blast
qed

section \<open>Lemmas on the runs of the mounted component\<close>

lemma children_store_ok:
  assumes "hooks_ok (hooks s)" and "memo_completedOrders (hooks s) = Some ([], [])"
    and "store_ok (orders s)"
  shows "App_children (rendered (App_hooks s)) = Inr ()"
proof -
  have "\<not> isl (TicketItem t)" if "t \<in> set (orders s)" for t
    using that assms(3) unfolding store_ok_def by blast
  then show ?thesis
    unfolding App_children_ok
    using store_ok_detail [OF assms(3), of "selectedOrderId s"]
    by (simp add: hooks_selectedOrder hooks_pendingOrders hooks_activeOrders
          hooks_completedOrders assms(1,2))
qed

lemma mounted_ok_selectedOrder:
  "mounted_ok s \<Longrightarrow>
   selectedOrder (rendered s) = List.find (\<lambda>t. Some (id_t t) = selectedOrderId s) (orders s)"
  using hooks_selectedOrder [of s] by (simp add: mounted_ok_def)

lemma mounted_ok_render: "mounted_ok s \<Longrightarrow> App_render s = Inr s"
  by (simp add: App_render_Inr mounted_ok_def)

lemma mounted_ok_App_hooks:
  assumes "mounted_ok s" and "hooks s1 = hooks s"
    and "App_children (rendered (App_hooks s1)) = Inr ()" and "store_ok (orders s1)"
  shows "mounted_ok (App_hooks s1)"
  using assms hooks_ok_App_hooks [of s1] hooks_completedOrders [of s1]
  by (simp add: mounted_ok_def App_hooks_idem)

lemma RecipeDetail_button:
  assumes "RecipeDetail order_opt = Inr buttons" and "b \<in> set buttons"
  shows "\<exists>order. order_opt = Some order \<and> status order \<noteq> ''completed''
                  \<and> fst (onClick b) = id_t order"
proof (cases order_opt)
  case None
  with assms show ?thesis by simp
next
  case (Some order)
  show ?thesis
  proof (cases "status order = ''completed''")
    case True
    with assms Some show ?thesis
      by (simp add: RecipeDetail_def split: sum.splits option.splits json.splits)
  next
    case False
    with assms Some show ?thesis
      by (auto simp: RecipeDetail_def split: sum.splits option.splits json.splits)
  qed
qed

lemma RecipeDetail_completed:
  assumes "status t = ''completed''"
  shows "RecipeDetail (Some t) = Inr buttons \<longrightarrow> buttons = []"
  using assms by (simp add: RecipeDetail_def split: sum.splits option.splits json.splits)

lemma handle_ClickButton:
  assumes "mounted_ok s"
  shows "handle (ClickButton c) s = s
         \<or> (\<exists>order st. first_with_id (id_t order) (orders s) = Some order
               \<and> selectedOrder (rendered s) = Some order
               \<and> status order \<noteq> ''completed''
               \<and> handle (ClickButton c) s = handleUpdateStatus (id_t order) st s)"
proof (cases "RecipeDetail (selectedOrder (rendered s))")
  case (Inl err)
  then show ?thesis by simp
next
  case (Inr buttons)
  show ?thesis
  proof (cases "List.find (\<lambda>b. caption b = c) buttons")
    case None
    with Inr show ?thesis by simp
  next
    case (Some b)
    then have "b \<in> set buttons"
      by (auto simp: find_Some_iff)
    with Inr obtain order where o: "selectedOrder (rendered s) = Some order"
        "status order \<noteq> ''completed''" "fst (onClick b) = id_t order"
      using RecipeDetail_button by blast
    from o(1) have "List.find (\<lambda>t. Some (id_t t) = selectedOrderId s) (orders s) = Some order"
      by (simp add: mounted_ok_selectedOrder [OF assms])
    then have first: "first_with_id (id_t order) (orders s) = Some order"
      by (rule find_selected_Some(2))
    have "handle (ClickButton c) s = handleUpdateStatus (id_t order) (snd (onClick b)) s"
      by (simp add: Inr Some o(3))
    with first o show ?thesis by blast
  qed
qed

lemma handle_local_orders:
  assumes "mounted_ok s" and "local_event ev"
  shows "orders (handle ev s) = orders s
         \<or> (\<exists>order st. first_with_id (id_t order) (orders s) = Some order
               \<and> status order \<noteq> ''completed''
               \<and> orders (handle ev s)
                   = map (\<lambda>x. if id_t x = id_t order then x\<lparr>status := st\<rparr> else x) (orders s))"
proof (cases ev)
  case (Message parsed uuid now)
  with assms(2) show ?thesis by simp
next
  case (ClickTicket i)
  then show ?thesis by simp
next
  case (ClickButton c)
  from handle_ClickButton [OF assms(1), of c] show ?thesis
  proof
    assume "handle (ClickButton c) s = s"
    with ClickButton show ?thesis by simp
  next
    assume "\<exists>order st. first_with_id (id_t order) (orders s) = Some order
               \<and> selectedOrder (rendered s) = Some order
               \<and> status order \<noteq> ''completed''
               \<and> handle (ClickButton c) s = handleUpdateStatus (id_t order) st s"
    then obtain order st where o: "first_with_id (id_t order) (orders s) = Some order"
        "status order \<noteq> ''completed''"
        "handle (ClickButton c) s = handleUpdateStatus (id_t order) st s"
      by blast
    have "orders (handle ev s)
            = map (\<lambda>x. if id_t x = id_t order then x\<lparr>status := st\<rparr> else x) (orders s)"
      unfolding ClickButton o(3) by simp
    with o(1,2) show ?thesis by blast
  qed
next
  case Timeout
  then show ?thesis by (simp split: list.splits)
qed

lemma handle_local_store_ok:
  assumes "mounted_ok s" and "local_event ev"
  shows "store_ok (orders (handle ev s))"
proof -
  have ok: "store_ok (orders s)"
    using assms(1) by (simp add: mounted_ok_def)
  from handle_local_orders [OF assms] show ?thesis
  proof
    assume "orders (handle ev s) = orders s"
    with ok show ?thesis by simp
  next
    assume "\<exists>order st. first_with_id (id_t order) (orders s) = Some order
               \<and> status order \<noteq> ''completed''
               \<and> orders (handle ev s)
                   = map (\<lambda>x. if id_t x = id_t order then x\<lparr>status := st\<rparr> else x) (orders s)"
    then obtain order st where o: "first_with_id (id_t order) (orders s) = Some order"
        "status order \<noteq> ''completed''"
        "orders (handle ev s)
           = map (\<lambda>x. if id_t x = id_t order then x\<lparr>status := st\<rparr> else x) (orders s)"
      by blast
    show ?thesis
      unfolding o(3) by (rule store_ok_update [OF ok o(1,2)])
  qed
qed

lemma onmessage_cases:
  "(orders (onmessage oc parsed uuid now s) = orders s
      \<and> selectedOrderId (onmessage oc parsed uuid now s) = selectedOrderId s)
   \<or> (\<exists>newTicket. orders (onmessage oc parsed uuid now s) = orders s @ [newTicket]
         \<and> selectedOrderId (onmessage oc parsed uuid now s) = Some (id_t newTicket)
         \<and> status newTicket = ''pending'')"
  by (simp add: onmessage_def createNewTicket_def Let_def split: sum.splits)

lemma handle_Message_store_ok:
  assumes m: "mounted_ok s"
    and children: "App_children (rendered (App_hooks (handle (Message parsed uuid now) s))) = Inr ()"
  shows "store_ok (orders (handle (Message parsed uuid now) s))"
proof -
  let ?s1 = "handle (Message parsed uuid now) s"
  have ok: "store_ok (orders s)" and h: "hooks_ok (hooks ?s1)"
    using m by (simp_all add: mounted_ok_def)
  from onmessage_cases [of "orders initial" parsed uuid now s] show ?thesis
  proof
    assume "orders (onmessage (orders initial) parsed uuid now s) = orders s
      \<and> selectedOrderId (onmessage (orders initial) parsed uuid now s) = selectedOrderId s"
    with ok show ?thesis by simp
  next
    assume "\<exists>newTicket. orders (onmessage (orders initial) parsed uuid now s) = orders s @ [newTicket]
         \<and> selectedOrderId (onmessage (orders initial) parsed uuid now s) = Some (id_t newTicket)
         \<and> status newTicket = ''pending''"
    then obtain nt where nt: "orders ?s1 = orders s @ [nt]"
        "selectedOrderId ?s1 = Some (id_t nt)" "status nt = ''pending''"
      by auto
    from children have c: "\<forall>t \<in> set (pendingOrders (rendered (App_hooks ?s1))). \<not> isl (TicketItem t)"
        "\<not> isl (RecipeDetail (selectedOrder (rendered (App_hooks ?s1))))"
      unfolding App_children_ok by blast+
    have "nt \<in> set (pendingOrders (rendered (App_hooks ?s1)))"
      unfolding hooks_pendingOrders [OF h] nt(1) using nt(3) by simp
    with c(1) have item: "\<not> isl (TicketItem nt)" by blast
    have "selectedOrder (rendered (App_hooks ?s1)) = first_with_id (id_t nt) (orders s @ [nt])"
      unfolding hooks_selectedOrder [OF h] nt(1,2) find_selected by simp
    with c(2) have detail: "\<not> isl (RecipeDetail (first_with_id (id_t nt) (orders s @ [nt])))"
      by simp
    have open_ticket: "status nt \<noteq> ''completed''"
      using nt(3) by simp
    show ?thesis
      unfolding nt(1) by (rule store_ok_append [OF ok item open_ticket detail])
  qed
qed

lemma step_mounted_ok:
  assumes "mounted_ok s" and "step ev s = Inr s'"
  shows "mounted_ok s'"
proof -
  from assms(2) have s': "s' = App_hooks (handle ev s)"
    and children: "App_children (rendered (App_hooks (handle ev s))) = Inr ()"
    unfolding step_Inr by simp_all
  have "store_ok (orders (handle ev s))"
  proof (cases "local_event ev")
    case True
    with assms(1) show ?thesis by (rule handle_local_store_ok)
  next
    case False
    then obtain parsed uuid now where "ev = Message parsed uuid now"
      by (cases ev) simp_all
    with assms(1) children show ?thesis
      using handle_Message_store_ok by blast
  qed
  with assms(1) children show ?thesis
    unfolding s' by (intro mounted_ok_App_hooks) simp_all
qed

lemma local_step_total:
  assumes "mounted_ok s" and "local_event ev"
  shows "step ev s = Inr (App_hooks (handle ev s))"
proof -
  have "store_ok (orders (handle ev s))"
    using assms by (rule handle_local_store_ok)
  moreover have "hooks_ok (hooks (handle ev s))"
    "memo_completedOrders (hooks (handle ev s)) = Some ([], [])"
    using assms(1) by (simp_all add: mounted_ok_def)
  ultimately have "App_children (rendered (App_hooks (handle ev s))) = Inr ()"
    by (intro children_store_ok)
  then show ?thesis by (simp add: step_Inr)
qed

lemma mounted_ok_first: "mounted_ok (App_hooks initial)"
proof -
  have "App_children (rendered (App_hooks initial)) = Inr ()"
    using mount_state by (simp add: mount_def App_render_Inr)
  moreover have "hooks_ok (hooks initial)"
    by (simp add: initial_def hooks_ok_def)
  moreover have "memo_completedOrders (hooks (App_hooks initial)) = Some ([], [])"
    by (simp add: initial_def App_hooks_def useMemo_def Let_def)
  moreover have "store_ok (orders initial)"
    by (simp add: initial_def store_ok_Nil)
  ultimately show ?thesis
    using hooks_ok_App_hooks [of initial] by (simp add: mounted_ok_def App_hooks_idem)
qed

lemma run_mounted_ok: "run evs = Inr s \<Longrightarrow> mounted_ok s"
proof (induction evs arbitrary: s rule: rev_induct)
  case Nil
  then show ?case using mounted_ok_first by (simp add: mount_state)
next
  case (snoc ev evs)
  from snoc.prems obtain s0 where "run evs = Inr s0" "step ev s0 = Inr s"
    unfolding run_snoc_Inr_iff by blast
  with snoc.IH show ?case
    using step_mounted_ok by blast
qed

lemma run_local_total:
  assumes "run evs = Inr s" and "list_all local_event evs'"
  shows "\<exists>s'. run (evs @ evs') = Inr s'"
  using assms(2)
proof (induction evs' rule: rev_induct)
  case Nil
  with assms(1) show ?case by simp
next
  case (snoc ev evs')
  then obtain s1 where s1: "run (evs @ evs') = Inr s1" and ev: "local_event ev"
    by auto
  have "step ev s1 = Inr (App_hooks (handle ev s1))"
    using run_mounted_ok [OF s1] ev by (rule local_step_total)
  then show ?case
    unfolding append_assoc [symmetric] run_snoc_Inr [OF s1] by blast
qed

section \<open>The concrete inputs, evaluated\<close>

lemmas run_defs = run_def step_def mount_def initial_def App_render_def App_children_def
  App_hooks_def useMemo_def onmessage_def panini_def createNewTicket_def Let_def
  handleUpdateStatus_def RecipeDetail_def TicketItem_def CompletedSpan_def React_child_def
  one_pending_def two_pending_def one_completed_def completed_b_selected_a_def

lemma one_pending_state:
  "orders one_pending =
     [\<lparr>id_t = ''a'', orderNumber = 101, recipe = panini, status = ''pending'', timestamp = 1\<rparr>]"
  "selectedOrderId one_pending = Some ''a''"
  "timers one_pending = []"
  by (simp_all add: run_defs)

lemma one_pending_reached: "run [Message (Inr panini) ''a'' 1] = Inr one_pending"
  by (simp add: run_defs)

lemma two_pending_state:
  "orders two_pending =
     [\<lparr>id_t = ''a'', orderNumber = 101, recipe = panini, status = ''pending'', timestamp = 1\<rparr>,
      \<lparr>id_t = ''b'', orderNumber = 101, recipe = panini, status = ''pending'', timestamp = 2\<rparr>]"
  "selectedOrderId two_pending = Some ''a''"
  "timers two_pending = []"
  by (simp_all add: run_defs)

lemma two_pending_reached:
  "run [Message (Inr panini) ''a'' 1, Message (Inr panini) ''b'' 2, ClickTicket ''a'']
     = Inr two_pending"
  by (simp add: run_defs)

lemma one_completed_state:
  "orders one_completed =
     [\<lparr>id_t = ''a'', orderNumber = 101, recipe = panini, status = ''completed'', timestamp = 1\<rparr>]"
  "rendered one_completed =
     \<lparr>selectedOrder = Some \<lparr>id_t = ''a'', orderNumber = 101, recipe = panini,
                              status = ''completed'', timestamp = 1\<rparr>,
      pendingOrders = [], activeOrders = [], completedOrders = []\<rparr>"
  by (simp_all add: run_defs)

lemma one_completed_reached:
  "run [Message (Inr panini) ''a'' 1, ClickButton ''Mark as Complete''] = Inr one_completed"
  by (simp add: run_defs)

lemma completed_b_selected_a_state:
  "map id_t (orders completed_b_selected_a) = [''a'', ''b'']"
  "map status (orders completed_b_selected_a) = [''pending'', ''completed'']"
  "selectedOrderId completed_b_selected_a = Some ''a''"
  "timers completed_b_selected_a = [500]"
  by (simp_all add: run_defs)

lemma completed_b_selected_a_reached:
  "run [Message (Inr panini) ''a'' 1, Message (Inr panini) ''b'' 2,
        ClickButton ''Mark as Complete'', ClickTicket ''a'']
     = Inr completed_b_selected_a"
  by (simp add: run_defs)

lemma soup_unmounts:
  "run [Message (Inr soup) ''a'' 1] = Inl TypeError"
  by (simp add: run_defs soup_def)

section \<open>Claims on the pure functions and on \<open>handleUpdateStatus\<close>\<close>

text \<open>
  C5. \<open>getStatusBadge\<close> returns a badge for every status: the red \<open>Pending\<close> badge for
  \<open>"pending"\<close>, the yellow \<open>In Progress\<close> badge for \<open>"preparing"\<close>, the green \<open>Completed\<close>
  badge for \<open>"completed"\<close>, and the grey \<open>Unknown\<close> badge for any other value. Nothing is
  thrown: the function has no failing branch.
\<close>

theorem getStatusBadge_total:
  "getStatusBadge ''pending'' =
     \<lparr>className = ''bg-red-100 text-red-700'', icon = Clock, label = ''Pending''\<rparr>
   \<and> getStatusBadge ''preparing'' =
     \<lparr>className = ''bg-yellow-100 text-yellow-700'', icon = Loader, label = ''In Progress''\<rparr>
   \<and> getStatusBadge ''completed'' =
     \<lparr>className = ''bg-green-100 text-green-700'', icon = CheckCircle, label = ''Completed''\<rparr>
   \<and> (st \<noteq> ''pending'' \<and> st \<noteq> ''preparing'' \<and> st \<noteq> ''completed'' \<longrightarrow>
        getStatusBadge st =
          \<lparr>className = ''bg-gray-100 text-gray-500'', icon = Clock, label = ''Unknown''\<rparr>)"
  by (simp add: getStatusBadge_def)

theorem getStatusBadge_total_witness:
  "''cancelled'' \<noteq> ''pending'' \<and> ''cancelled'' \<noteq> ''preparing'' \<and> ''cancelled'' \<noteq> ''completed''
   \<and> getStatusBadge ''cancelled'' =
         \<lparr>className = ''bg-gray-100 text-gray-500'', icon = Clock, label = ''Unknown''\<rparr>"
  using getStatusBadge_total [of "''cancelled''"] by simp

text \<open>
  C4. \<open>handleUpdateStatus(id, "completed")\<close> applied twice leaves the same \<open>orders\<close> as
  applied once, and after one application as after two every ticket with that id has
  the status \<open>"completed"\<close>.
\<close>

theorem mark_complete_idempotent:
  "orders (handleUpdateStatus i ''completed'' (handleUpdateStatus i ''completed'' s))
     = orders (handleUpdateStatus i ''completed'' s)
   \<and> (\<forall>t \<in> set (orders (handleUpdateStatus i ''completed'' s)).
          id_t t = i \<longrightarrow> status t = ''completed'')
   \<and> (\<forall>t \<in> set (orders (handleUpdateStatus i ''completed'' (handleUpdateStatus i ''completed'' s))).
          id_t t = i \<longrightarrow> status t = ''completed'')"
proof -
  define f :: "ticket \<Rightarrow> ticket"
    where "f = (\<lambda>order. if id_t order = i then order\<lparr>status := ''completed''\<rparr> else order)"
  have once: "orders (handleUpdateStatus i ''completed'' s') = map f (orders s')" for s'
    by (simp add: f_def)
  have ff: "f (f t) = f t" for t
    by (simp add: f_def)
  have twice: "map f (map f (orders s)) = map f (orders s)"
    by (simp add: ff)
  have done_now: "status t = ''completed''" if "t \<in> set (map f (orders s))" "id_t t = i" for t
  proof -
    from that(1) obtain x where x: "t = f x"
      by (auto simp: image_iff)
    show ?thesis
    proof (cases "id_t x = i")
      case True
      then show ?thesis by (simp add: x f_def)
    next
      case False
      with that(2) show ?thesis by (simp add: x f_def)
    qed
  qed
  show ?thesis
    unfolding once twice using done_now by blast
qed

theorem mark_complete_idempotent_witness:
  "map id_t (orders one_pending) = [''a'']
   \<and> map status (orders one_pending) = [''pending'']
   \<and> map status (orders (handleUpdateStatus ''a'' ''completed'' one_pending)) = [''completed'']
   \<and> orders (handleUpdateStatus ''a'' ''completed'' (handleUpdateStatus ''a'' ''completed'' one_pending))
       = orders (handleUpdateStatus ''a'' ''completed'' one_pending)"
  using mark_complete_idempotent [of "''a''" one_pending]
  by (simp add: one_pending_state)

text \<open>
  C10. The frame of \<open>handleUpdateStatus(id, newStatus)\<close>: \<open>orders\<close> keeps its length and the
  order of its ids; at every position a ticket with another id is unchanged and a
  ticket with the target id changes in \<open>status\<close> only (\<open>id\<close>, \<open>orderNumber\<close>, \<open>recipe\<close> and
  \<open>timestamp\<close> stay); when no ticket has the target id, \<open>orders\<close> is unchanged.
\<close>

theorem handleUpdateStatus_frame:
  "length (orders (handleUpdateStatus i newStatus s)) = length (orders s)
   \<and> map id_t (orders (handleUpdateStatus i newStatus s)) = map id_t (orders s)
   \<and> (\<forall>k < length (orders s).
         (id_t (orders s ! k) \<noteq> i \<longrightarrow> orders (handleUpdateStatus i newStatus s) ! k = orders s ! k)
         \<and> (id_t (orders s ! k) = i \<longrightarrow>
              orders (handleUpdateStatus i newStatus s) ! k = (orders s ! k)\<lparr>status := newStatus\<rparr>)
         \<and> id_t (orders (handleUpdateStatus i newStatus s) ! k) = id_t (orders s ! k)
         \<and> orderNumber (orders (handleUpdateStatus i newStatus s) ! k) = orderNumber (orders s ! k)
         \<and> recipe (orders (handleUpdateStatus i newStatus s) ! k) = recipe (orders s ! k)
         \<and> timestamp (orders (handleUpdateStatus i newStatus s) ! k) = timestamp (orders s ! k))
   \<and> (i \<notin> set (map id_t (orders s)) \<longrightarrow> orders (handleUpdateStatus i newStatus s) = orders s)"
proof -
  define f :: "ticket \<Rightarrow> ticket"
    where "f = (\<lambda>order. if id_t order = i then order\<lparr>status := newStatus\<rparr> else order)"
  have upd: "orders (handleUpdateStatus i newStatus s) = map f (orders s)"
    by (simp add: f_def)
  have f_id: "id_t (f t) = id_t t" and f_rest: "orderNumber (f t) = orderNumber t"
    "recipe (f t) = recipe t" "timestamp (f t) = timestamp t" for t
    by (simp_all add: f_def)
  have ids: "map id_t (map f (orders s)) = map id_t (orders s)"
    by (simp add: comp_def f_id)
  have absent: "i \<notin> set (map id_t (orders s)) \<longrightarrow> map f (orders s) = orders s"
  proof
    assume "i \<notin> set (map id_t (orders s))"
    then have "f t = t" if "t \<in> set (orders s)" for t
      using that by (auto simp: f_def)
    then show "map f (orders s) = orders s"
      by (simp add: map_idI)
  qed
  have pointwise:
    "(id_t (orders s ! k) \<noteq> i \<longrightarrow> map f (orders s) ! k = orders s ! k)
     \<and> (id_t (orders s ! k) = i \<longrightarrow> map f (orders s) ! k = (orders s ! k)\<lparr>status := newStatus\<rparr>)
     \<and> id_t (map f (orders s) ! k) = id_t (orders s ! k)
     \<and> orderNumber (map f (orders s) ! k) = orderNumber (orders s ! k)
     \<and> recipe (map f (orders s) ! k) = recipe (orders s ! k)
     \<and> timestamp (map f (orders s) ! k) = timestamp (orders s ! k)"
    if "k < length (orders s)" for k
    using that by (simp add: f_id f_rest) (simp add: f_def)
  have len: "length (map f (orders s)) = length (orders s)"
    by simp
  show ?thesis
    unfolding upd using ids absent pointwise len by blast
qed

theorem handleUpdateStatus_frame_witness:
  "(1::nat) < length (orders two_pending)
   \<and> id_t (orders two_pending ! 0) \<noteq> ''b''
   \<and> orders (handleUpdateStatus ''b'' ''preparing'' two_pending) ! 0 = orders two_pending ! 0
   \<and> id_t (orders two_pending ! 1) = ''b''
   \<and> orders (handleUpdateStatus ''b'' ''preparing'' two_pending) ! 1
        = (orders two_pending ! 1)\<lparr>status := ''preparing''\<rparr>
   \<and> ''z'' \<notin> set (map id_t (orders two_pending))
   \<and> orders (handleUpdateStatus ''z'' ''preparing'' two_pending) = orders two_pending"
  using handleUpdateStatus_frame [of "''b''" "''preparing''" two_pending]
    handleUpdateStatus_frame [of "''z''" "''preparing''" two_pending]
  by (simp add: two_pending_state)

section \<open>Claims on the stream handler and the derived views\<close>

lemma createNewTicket_orderNumber:
  "orderNumber (createNewTicket existingOrders recipeData uuid now) =
     (if existingOrders = [] then 101 else Max (orderNumber ` set existingOrders) + 1)"
proof (cases existingOrders)
  case Nil
  then show ?thesis by (simp add: createNewTicket_def)
next
  case (Cons t ts)
  have "fold max (map orderNumber ts) (orderNumber t) = Max (set (orderNumber t # map orderNumber ts))"
    by (simp only: Max.set_eq_fold)
  with Cons show ?thesis by (simp add: createNewTicket_def)
qed

lemma handle_orderNumbers:
  "\<forall>t \<in> set (orders s). orderNumber t = 101 \<Longrightarrow> \<forall>t \<in> set (orders (handle ev s)). orderNumber t = 101"
proof (cases ev)
  case (Message parsed uuid now)
  then show "\<forall>t \<in> set (orders s). orderNumber t = 101 \<Longrightarrow> ?thesis"
    by (auto simp: onmessage_def initial_def createNewTicket_def Let_def split: sum.splits)
next
  case (ClickButton c)
  then show "\<forall>t \<in> set (orders s). orderNumber t = 101 \<Longrightarrow> ?thesis"
    by (auto split: option.splits sum.splits)
qed (auto split: list.splits)

lemma every_ticket_101: "run evs = Inr s \<Longrightarrow> \<forall>t \<in> set (orders s). orderNumber t = 101"
proof (induction evs arbitrary: s rule: rev_induct)
  case Nil
  then have "orders s = orders initial"
    by (auto simp: mount_state)
  then show ?case by (simp add: initial_def)
next
  case (snoc ev evs)
  from snoc.prems obtain s0 where s0: "run evs = Inr s0" "step ev s0 = Inr s"
    unfolding run_snoc_Inr_iff by blast
  from s0(2) have "orders s = orders (handle ev s0)"
    by (simp add: step_Inr)
  with snoc.IH [OF s0(1)] show ?case
    using handle_orderNumbers [of s0 ev] by simp
qed

text \<open>
  C1. Two valid payloads, one after the other, from the mounted component: both renders
  succeed and both tickets get the \<open>orderNumber\<close> 101. \<open>createNewTicket\<close> is called with
  the \<open>orders\<close> of the first render, which is empty, not with the store.
\<close>

theorem stream_orderNumbers_repeat:
  "map_sum id (map orderNumber \<circ> orders)
     (run [Message (Inr panini) ''a'' 1, Message (Inr panini) ''b'' 2]) = Inr [101, 101]"
  by (simp add: run_defs)

lemma completedOrders_always_empty: "run evs = Inr s \<Longrightarrow> completedOrders (rendered s) = []"
proof -
  assume "run evs = Inr s"
  then have m: "mounted_ok s" by (rule run_mounted_ok)
  then have "completedOrders (rendered (App_hooks s)) = []"
    using hooks_completedOrders [of s] by (simp add: mounted_ok_def)
  with m show ?thesis by (simp add: mounted_ok_def)
qed

text \<open>
  C2. After one payload and a click on \<open>Mark as Complete\<close> the store holds one ticket, of
  status \<open>"completed"\<close>, and the three rendered views are empty: the ticket is in none
  of them and their sizes sum to 0, not to 1. \<open>completedOrders\<close> is memoised with the
  dependency array \<open>[]\<close> and keeps the value of the first render.
\<close>

theorem views_miss_completed_ticket:
  "run [Message (Inr panini) ''a'' 1, ClickButton ''Mark as Complete''] = Inr one_completed
   \<and> map status (orders one_completed) = [''completed'']
   \<and> pendingOrders (rendered one_completed) = []
   \<and> activeOrders (rendered one_completed) = []
   \<and> completedOrders (rendered one_completed) = []
   \<and> length (pendingOrders (rendered one_completed)) + length (activeOrders (rendered one_completed))
       + length (completedOrders (rendered one_completed)) \<noteq> length (orders one_completed)"
  by (simp add: one_completed_state one_completed_reached)

text \<open>
  C6. In a rendered state of the mounted component, a stream message whose payload does
  not decode, or decodes to \<open>null\<close>, or decodes to a value without a \<open>meal\<close> member,
  changes nothing but the console: \<open>console.error\<close> gets the error in the first two
  cases and \<open>console.log\<close> prints the missing meal in the third. \<open>orders\<close>, the selection,
  the scheduled timeouts and what is rendered stay as they were, and the render that
  follows succeeds.
\<close>

theorem malformed_payload_dropped:
  assumes "App_render s = Inr s"
  shows "(parsed = Inl err \<longrightarrow>
            step (Message parsed uuid now) s
              = Inr (s\<lparr>console := console s @ [ErrorFailedToParse err]\<rparr>))
       \<and> (parsed = Inr data \<and> get_meal data = Inl err \<longrightarrow>
            step (Message parsed uuid now) s
              = Inr (s\<lparr>console := console s @ [ErrorFailedToParse err]\<rparr>))
       \<and> (parsed = Inr data \<and> get_meal data = Inr None \<longrightarrow>
            step (Message parsed uuid now) s
              = Inr (s\<lparr>console := console s @ [LogMeal None]\<rparr>))"
proof -
  from assms have same: "App_hooks s = s"
    by (simp add: App_render_Inr)
  with assms have children: "App_children (rendered s) = Inr ()"
    by (simp add: App_render_Inr)
  have "App_render (s\<lparr>console := c\<rparr>) = Inr (s\<lparr>console := c\<rparr>)" for c
    by (simp add: App_render_Inr App_hooks_console same children)
  then show ?thesis
    by (simp add: step_def onmessage_def)
qed

theorem malformed_payload_dropped_witness:
  "App_render one_pending = Inr one_pending
   \<and> step (Message (Inl SyntaxError) ''b'' 2) one_pending
       = Inr (one_pending\<lparr>console := console one_pending @ [ErrorFailedToParse SyntaxError]\<rparr>)
   \<and> get_meal JNull = Inl TypeError
   \<and> step (Message (Inr JNull) ''b'' 2) one_pending
       = Inr (one_pending\<lparr>console := console one_pending @ [ErrorFailedToParse TypeError]\<rparr>)
   \<and> get_meal (JObject [(''steps'', JArray [JString ''Toast bread''])]) = Inr None
   \<and> step (Message (Inr (JObject [(''steps'', JArray [JString ''Toast bread''])])) ''b'' 2) one_pending
       = Inr (one_pending\<lparr>console := console one_pending @ [LogMeal None]\<rparr>)"
proof -
  have r: "App_render one_pending = Inr one_pending"
    using run_mounted_ok [OF one_pending_reached] by (rule mounted_ok_render)
  show ?thesis
    using r
      malformed_payload_dropped [OF r, where parsed = "Inl SyntaxError" and err = SyntaxError
        and uuid = "''b''" and now = 2]
      malformed_payload_dropped [OF r, where parsed = "Inr JNull" and data = JNull
        and err = TypeError and uuid = "''b''" and now = 2]
      malformed_payload_dropped [OF r,
        where parsed = "Inr (JObject [(''steps'', JArray [JString ''Toast bread''])])"
        and data = "JObject [(''steps'', JArray [JString ''Toast bread''])]"
        and uuid = "''b''" and now = 2]
    by simp
qed

section \<open>Claims on the selection\<close>

text \<open>
  C7, as stated, fails. With ticket \<open>a\<close> selected, \<open>handleUpdateStatus("b", "completed")\<close>
  followed by the timeout clears the selection, although the ticket completed is not
  the selected one. The same through the user interface: \<open>b\<close> is completed while
  selected, \<open>a\<close> is selected before the delay is over, and the timeout deselects \<open>a\<close>,
  which is still pending.
\<close>

theorem deselect_only_completed_counterexample:
  "run [Message (Inr panini) ''a'' 1, Message (Inr panini) ''b'' 2, ClickTicket ''a'']
     = Inr two_pending
   \<and> selectedOrderId two_pending = Some ''a''
   \<and> ''b'' \<noteq> ''a''
   \<and> selectedOrderId (handle Timeout (handleUpdateStatus ''b'' ''completed'' two_pending))
        \<noteq> selectedOrderId two_pending
   \<and> run [Message (Inr panini) ''a'' 1, Message (Inr panini) ''b'' 2,
           ClickButton ''Mark as Complete'', ClickTicket ''a'']
        = Inr completed_b_selected_a
   \<and> selectedOrderId completed_b_selected_a = Some ''a''
   \<and> map status (orders completed_b_selected_a) = [''pending'', ''completed'']
   \<and> map_sum id selectedOrderId (step Timeout completed_b_selected_a) = Inr None"
proof -
  have "step Timeout completed_b_selected_a
          = Inr (App_hooks (handle Timeout completed_b_selected_a))"
    using run_mounted_ok [OF completed_b_selected_a_reached] by (rule local_step_total) simp
  then have "map_sum id selectedOrderId (step Timeout completed_b_selected_a) = Inr None"
    by (simp add: completed_b_selected_a_state)
  then show ?thesis
    by (simp add: two_pending_state two_pending_reached completed_b_selected_a_state
          completed_b_selected_a_reached)
qed

text \<open>
  C7, amended. \<open>handleUpdateStatus\<close> itself leaves the selection as it is. With the new
  status \<open>"completed"\<close> it schedules one callback with the delay 500, with any other
  status none. When a scheduled callback runs after such an update the selection is
  cleared, whatever was selected and whichever ticket was completed.
\<close>

theorem completed_schedules_deselect:
  "selectedOrderId (handleUpdateStatus i newStatus s) = selectedOrderId s
   \<and> timers (handleUpdateStatus i newStatus s)
        = (if newStatus = ''completed'' then timers s @ [500] else timers s)
   \<and> selectedOrderId (handle Timeout (handleUpdateStatus i ''completed'' s)) = None
   \<and> selectedOrderId
        (App_hooks (handle Timeout (App_hooks (handleUpdateStatus i ''completed'' s)))) = None"
  by (simp split: list.splits)

theorem completed_schedules_deselect_witness:
  "selectedOrderId two_pending = Some ''a''
   \<and> selectedOrderId (handleUpdateStatus ''a'' ''completed'' two_pending) = Some ''a''
   \<and> timers (handleUpdateStatus ''a'' ''completed'' two_pending) = [500]
   \<and> timers (handleUpdateStatus ''a'' ''preparing'' two_pending) = []
   \<and> selectedOrderId (handle Timeout (handleUpdateStatus ''a'' ''completed'' two_pending)) = None"
  using completed_schedules_deselect [of "''a''" "''completed''" two_pending]
    completed_schedules_deselect [of "''a''" "''preparing''" two_pending]
  by (simp add: two_pending_state)

text \<open>
  C9. Whatever the store and the selected id, and whatever was rendered before: when no
  ticket of the store has the selected id, in particular when the selected id is
  \<open>null\<close>, the body of \<open>App\<close> computes \<open>selectedOrder = null\<close>, and that is the value of
  any render that succeeds. The selection starts as \<open>null\<close>, and so does
  \<open>selectedOrder\<close> at the first render.
\<close>

theorem selectedOrder_unresolved:
  assumes "hooks_ok (hooks s)"
    and "List.find (\<lambda>t. Some (id_t t) = sel) os = None"
  shows "selectedOrder (rendered (App_hooks (s\<lparr>orders := os, selectedOrderId := sel\<rparr>))) = None
       \<and> selectedOrder (rendered (App_hooks (s\<lparr>orders := os, selectedOrderId := None\<rparr>))) = None
       \<and> (App_render (s\<lparr>orders := os, selectedOrderId := sel\<rparr>) = Inr s'
            \<longrightarrow> selectedOrder (rendered s') = None)
       \<and> selectedOrderId initial = None
       \<and> map_sum id (selectedOrder \<circ> rendered) mount = Inr None"
proof -
  have none: "List.find (\<lambda>t. Some (id_t t) = None) os = None"
    by (simp add: find_None_iff)
  have first: "map_sum id (selectedOrder \<circ> rendered) mount = Inr None"
    by (simp add: mount_state initial_def App_hooks_def useMemo_def Let_def)
  have body: "selectedOrder (rendered (App_hooks (s\<lparr>orders := os, selectedOrderId := sel\<rparr>))) = None"
    using assms by (simp add: hooks_selectedOrder)
  show ?thesis
    using assms none first body by (simp add: hooks_selectedOrder initial_def App_render_Inr)
qed

theorem selectedOrder_unresolved_witness:
  "hooks_ok (hooks one_pending)
   \<and> List.find (\<lambda>t. Some (id_t t) = Some ''gone'') (orders one_pending) = None
   \<and> selectedOrder (rendered (App_hooks
        (one_pending\<lparr>orders := orders one_pending, selectedOrderId := Some ''gone''\<rparr>))) = None
   \<and> App_render (one_pending\<lparr>orders := orders one_pending, selectedOrderId := Some ''gone''\<rparr>)
        = Inr (App_hooks (one_pending\<lparr>orders := orders one_pending, selectedOrderId := Some ''gone''\<rparr>))"
proof -
  let ?s = "one_pending\<lparr>orders := orders one_pending, selectedOrderId := Some ''gone''\<rparr>"
  have m: "mounted_ok one_pending"
    using one_pending_reached by (rule run_mounted_ok)
  then have h: "hooks_ok (hooks one_pending)"
    by (simp add: mounted_ok_def)
  have f: "List.find (\<lambda>t. Some (id_t t) = Some ''gone'') (orders one_pending) = None"
    by (simp add: one_pending_state)
  have "App_children (rendered (App_hooks ?s)) = Inr ()"
    using m by (intro children_store_ok) (simp_all add: mounted_ok_def)
  then have r: "App_render ?s = Inr (App_hooks ?s)"
    by (simp add: App_render_Inr)
  show ?thesis
    using h f r selectedOrder_unresolved [OF h f, of "App_hooks ?s"] by simp
qed

section \<open>Claims on the status lifecycle\<close>

lemma RecipeDetail_rendered:
  assumes "\<not> isl (RecipeDetail (Some order))"
  shows "RecipeDetail (Some order) =
     Inr ((if status order \<noteq> ''completed'' then
             [\<lparr>caption = (if status order = ''pending'' then ''Start Cooking'' else ''Pause''),
               onClick = (id_t order,
                          if status order = ''pending'' then ''preparing'' else ''pending'')\<rparr>]
           else [])
          @
          (if status order \<noteq> ''completed'' then
             [\<lparr>caption = ''Mark as Complete'', onClick = (id_t order, ''completed'')\<rparr>]
           else []))"
  using assms
  by (auto simp: RecipeDetail_def split: sum.splits option.splits json.splits)

lemma mounted_ok_detail:
  assumes "mounted_ok s" and "selectedOrder (rendered s) = Some t"
  shows "\<not> isl (RecipeDetail (Some t))"
proof -
  from assms(1) have "App_children (rendered s) = Inr ()"
    by (simp add: mounted_ok_def)
  then have "\<not> isl (RecipeDetail (selectedOrder (rendered s)))"
    unfolding App_children_ok by blast
  with assms(2) show ?thesis by simp
qed

lemma click_update:
  assumes m: "mounted_ok s"
    and sel: "selectedOrder (rendered s) = Some t"
    and btn: "RecipeDetail (Some t) = Inr buttons"
      "List.find (\<lambda>b. caption b = c) buttons = Some b"
      "onClick b = (id_t t, st)"
  shows "\<exists>s1. step (ClickButton c) s = Inr s1
           \<and> selectedOrder (rendered s1) = Some (t\<lparr>status := st\<rparr>)
           \<and> List.find (\<lambda>x. id_t x = id_t t) (orders s1) = Some (t\<lparr>status := st\<rparr>)"
proof -
  let ?s1 = "App_hooks (handleUpdateStatus (id_t t) st s)"
  have h: "handle (ClickButton c) s = handleUpdateStatus (id_t t) st s"
    by (simp add: sel btn)
  have total: "step (ClickButton c) s = Inr ?s1"
    using local_step_total [OF m, of "ClickButton c"] unfolding h by simp
  then have m1: "mounted_ok ?s1"
    using m step_mounted_ok by blast
  have "List.find (\<lambda>x. Some (id_t x) = selectedOrderId s) (orders s) = Some t"
    using sel by (simp add: mounted_ok_selectedOrder [OF m])
  then have found: "selectedOrderId s = Some (id_t t)" "first_with_id (id_t t) (orders s) = Some t"
    by (rule find_selected_Some(1), rule find_selected_Some(2))
  have first1: "first_with_id (id_t t) (orders ?s1) = Some (t\<lparr>status := st\<rparr>)"
    by (simp add: first_with_id_update found(2))
  have "selectedOrder (rendered ?s1) = first_with_id (id_t t) (orders ?s1)"
    unfolding mounted_ok_selectedOrder [OF m1] find_selected by (simp add: found(1))
  with first1 have "selectedOrder (rendered ?s1) = Some (t\<lparr>status := st\<rparr>)"
    by simp
  with total first1 show ?thesis
    unfolding first_with_id_def by blast
qed

text \<open>
  C8. In any state of the mounted component where the detail panel shows a ticket of
  status \<open>"pending"\<close>: a click on \<open>Start Cooking\<close> sets the status of that ticket to
  \<open>"preparing"\<close>, in the store and in the panel, and a click on \<open>Pause\<close> after it sets it
  back to \<open>"pending"\<close>, which gives the ticket as it was. Both renders succeed.
\<close>

theorem start_cooking_then_pause:
  assumes "run evs = Inr s"
    and "selectedOrder (rendered s) = Some t"
    and "status t = ''pending''"
  shows "\<exists>s1 s2.
           run (evs @ [ClickButton ''Start Cooking'']) = Inr s1
         \<and> selectedOrder (rendered s1) = Some (t\<lparr>status := ''preparing''\<rparr>)
         \<and> List.find (\<lambda>x. id_t x = id_t t) (orders s1) = Some (t\<lparr>status := ''preparing''\<rparr>)
         \<and> run ((evs @ [ClickButton ''Start Cooking'']) @ [ClickButton ''Pause'']) = Inr s2
         \<and> selectedOrder (rendered s2) = Some t
         \<and> List.find (\<lambda>x. id_t x = id_t t) (orders s2) = Some t"
proof -
  let ?e1 = "evs @ [ClickButton ''Start Cooking'']"
  let ?t1 = "t\<lparr>status := ''preparing''\<rparr>"
  have m: "mounted_ok s"
    using assms(1) by (rule run_mounted_ok)
  have d: "RecipeDetail (Some t) =
             Inr [\<lparr>caption = ''Start Cooking'', onClick = (id_t t, ''preparing'')\<rparr>,
                  \<lparr>caption = ''Mark as Complete'', onClick = (id_t t, ''completed'')\<rparr>]"
    using RecipeDetail_rendered [OF mounted_ok_detail [OF m assms(2)]] assms(3) by simp
  obtain s1 where s1: "step (ClickButton ''Start Cooking'') s = Inr s1"
      "selectedOrder (rendered s1) = Some ?t1"
      "List.find (\<lambda>x. id_t x = id_t t) (orders s1) = Some ?t1"
    using click_update [OF m assms(2) d, of "''Start Cooking''" _ "''preparing''"] by auto
  have r1: "run ?e1 = Inr s1"
    using s1(1) by (simp add: run_snoc_Inr [OF assms(1)])
  have m1: "mounted_ok s1"
    using r1 by (rule run_mounted_ok)
  have d1: "RecipeDetail (Some ?t1) =
             Inr [\<lparr>caption = ''Pause'', onClick = (id_t ?t1, ''pending'')\<rparr>,
                  \<lparr>caption = ''Mark as Complete'', onClick = (id_t ?t1, ''completed'')\<rparr>]"
    using RecipeDetail_rendered [OF mounted_ok_detail [OF m1 s1(2)]] by simp
  have restored: "?t1\<lparr>status := ''pending''\<rparr> = t"
    using assms(3) by simp
  obtain s2 where s2: "step (ClickButton ''Pause'') s1 = Inr s2"
      "selectedOrder (rendered s2) = Some t"
      "List.find (\<lambda>x. id_t x = id_t t) (orders s2) = Some t"
    using click_update [OF m1 s1(2) d1, of "''Pause''" _ "''pending''"]
    unfolding restored by auto
  have r2: "run (?e1 @ [ClickButton ''Pause'']) = Inr s2"
    using s2(1) by (simp only: run_snoc_Inr [OF r1])
  show ?thesis
    using r1 s1(2,3) r2 s2(2,3) by blast
qed

theorem start_cooking_then_pause_witness:
  "run [Message (Inr panini) ''a'' 1] = Inr one_pending
   \<and> selectedOrder (rendered one_pending)
       = Some \<lparr>id_t = ''a'', orderNumber = 101, recipe = panini, status = ''pending'', timestamp = 1\<rparr>
   \<and> map_sum id (map status \<circ> orders)
        (run ([Message (Inr panini) ''a'' 1] @ [ClickButton ''Start Cooking''])) = Inr [''preparing'']
   \<and> map_sum id (map status \<circ> orders)
        (run (([Message (Inr panini) ''a'' 1] @ [ClickButton ''Start Cooking''])
                 @ [ClickButton ''Pause''])) = Inr [''pending'']"
proof -
  let ?t = "\<lparr>id_t = ''a'', orderNumber = 101, recipe = panini, status = ''pending'', timestamp = 1\<rparr>"
  have sel: "selectedOrder (rendered one_pending) = Some ?t"
    by (simp add: run_defs)
  have st: "status ?t = ''pending''"
    by simp
  have e1: "map_sum id (map status \<circ> orders)
        (run ([Message (Inr panini) ''a'' 1] @ [ClickButton ''Start Cooking''])) = Inr [''preparing'']"
    by (simp add: run_defs)
  have e2: "map_sum id (map status \<circ> orders)
        (run (([Message (Inr panini) ''a'' 1] @ [ClickButton ''Start Cooking''])
                 @ [ClickButton ''Pause''])) = Inr [''pending'']"
    by (simp add: run_defs)
  show ?thesis
    using one_pending_reached sel e1 e2
      start_cooking_then_pause [OF one_pending_reached sel st]
    by simp
qed

lemma step_keeps_completed:
  assumes m: "mounted_ok s"
    and t: "t \<in> set (orders s)" "status t = ''completed''"
    and st: "step ev s = Inr s'"
  shows "t \<in> set (orders s')"
proof -
  from st have o': "orders s' = orders (handle ev s)"
    by (simp add: step_Inr)
  have ok: "store_ok (orders s)"
    using m by (simp add: mounted_ok_def)
  show ?thesis
  proof (cases "local_event ev")
    case False
    then obtain parsed uuid now where "ev = Message parsed uuid now"
      by (cases ev) simp_all
    then show ?thesis
      unfolding o' using onmessage_cases [of "orders initial" parsed uuid now s] t(1) by auto
  next
    case True
    from handle_local_orders [OF m True] show ?thesis
    proof
      assume "orders (handle ev s) = orders s"
      with t(1) show ?thesis unfolding o' by simp
    next
      assume "\<exists>order st. first_with_id (id_t order) (orders s) = Some order
               \<and> status order \<noteq> ''completed''
               \<and> orders (handle ev s)
                   = map (\<lambda>x. if id_t x = id_t order then x\<lparr>status := st\<rparr> else x) (orders s)"
      then obtain order st where o: "first_with_id (id_t order) (orders s) = Some order"
          "status order \<noteq> ''completed''"
          "orders (handle ev s)
             = map (\<lambda>x. if id_t x = id_t order then x\<lparr>status := st\<rparr> else x) (orders s)"
        by blast
      define f :: "ticket \<Rightarrow> ticket"
        where "f = (\<lambda>x. if id_t x = id_t order then x\<lparr>status := st\<rparr> else x)"
      have "id_t t \<noteq> id_t order"
        by (rule completed_not_target [OF ok o(1,2) t])
      then have same: "t = f t"
        by (simp add: f_def)
      have "t \<in> f ` set (orders s)"
        using same t(1) by (rule image_eqI)
      then show ?thesis
        unfolding o' o(3) f_def by simp
    qed
  qed
qed

lemma run_keeps_completed:
  assumes "run evs = Inr s" and "t \<in> set (orders s)" and "status t = ''completed''"
  shows "run (evs @ evs') = Inr s' \<Longrightarrow> t \<in> set (orders s')"
proof (induction evs' arbitrary: s' rule: rev_induct)
  case Nil
  with assms(1,2) show ?case by simp
next
  case (snoc ev evs')
  from snoc.prems obtain s1 where s1: "run (evs @ evs') = Inr s1" "step ev s1 = Inr s'"
    unfolding append_assoc [symmetric] run_snoc_Inr_iff by blast
  have "t \<in> set (orders s1)"
    using s1(1) by (rule snoc.IH)
  with run_mounted_ok [OF s1(1)] show ?case
    using assms(3) s1(2) by (rule step_keeps_completed)
qed

text \<open>
  C3. \<open>RecipeDetail\<close> renders no button for a ticket of status \<open>"completed"\<close>, so while
  such a ticket is the one shown, a click on any button changes nothing. A ticket that
  is in the store of the mounted component with status \<open>"completed"\<close> is still there,
  unchanged, after any further events that leave the component mounted; and clicks on
  buttons and tickets and timeouts, in any number and order, always leave it mounted.
\<close>

theorem completed_is_terminal:
  assumes "run evs = Inr s"
    and "t \<in> set (orders s)"
    and "status t = ''completed''"
  shows "(RecipeDetail (Some t) = Inr buttons \<longrightarrow> buttons = [])
       \<and> (selectedOrder (rendered s) = Some t \<longrightarrow>
            RecipeDetail (Some t) = Inr [] \<and> step (ClickButton c) s = Inr s)
       \<and> (run (evs @ evs') = Inr s' \<longrightarrow> t \<in> set (orders s'))
       \<and> (list_all local_event evs' \<longrightarrow>
            (\<exists>s''. run (evs @ evs') = Inr s'' \<and> t \<in> set (orders s'')))"
proof -
  have m: "mounted_ok s"
    using assms(1) by (rule run_mounted_ok)
  have none: "RecipeDetail (Some t) = Inr buttons \<longrightarrow> buttons = []"
    using assms(3) by (rule RecipeDetail_completed)
  have shown: "RecipeDetail (Some t) = Inr [] \<and> step (ClickButton c) s = Inr s"
    if sel: "selectedOrder (rendered s) = Some t"
  proof -
    have d: "RecipeDetail (Some t) = Inr []"
      using RecipeDetail_rendered [OF mounted_ok_detail [OF m sel]] assms(3) by simp
    then have "handle (ClickButton c) s = s"
      by (simp add: sel)
    with d show ?thesis
      by (simp add: step_def mounted_ok_render [OF m])
  qed
  have stays: "t \<in> set (orders s')" if "run (evs @ evs') = Inr s'"
    using assms that by (rule run_keeps_completed)
  have local_events: "\<exists>s''. run (evs @ evs') = Inr s'' \<and> t \<in> set (orders s'')"
    if "list_all local_event evs'"
  proof -
    from run_local_total [OF assms(1) that] obtain s'' where "run (evs @ evs') = Inr s''"
      by blast
    with run_keeps_completed [OF assms this] show ?thesis by blast
  qed
  show ?thesis
    using none shown stays local_events by blast
qed

theorem completed_is_terminal_witness:
  "run [Message (Inr panini) ''a'' 1, ClickButton ''Mark as Complete''] = Inr one_completed
   \<and> \<lparr>id_t = ''a'', orderNumber = 101, recipe = panini, status = ''completed'', timestamp = 1\<rparr>
        \<in> set (orders one_completed)
   \<and> selectedOrder (rendered one_completed)
       = Some \<lparr>id_t = ''a'', orderNumber = 101, recipe = panini, status = ''completed'', timestamp = 1\<rparr>
   \<and> RecipeDetail
        (Some \<lparr>id_t = ''a'', orderNumber = 101, recipe = panini, status = ''completed'', timestamp = 1\<rparr>)
       = Inr []
   \<and> step (ClickButton ''Start Cooking'') one_completed = Inr one_completed
   \<and> map_sum id (map status \<circ> orders)
        (run ([Message (Inr panini) ''a'' 1, ClickButton ''Mark as Complete''] @ completed_then_more))
       = Inr [''completed'', ''completed'']
   \<and> list_all local_event clicks_after
   \<and> map_sum id (map status \<circ> orders)
        (run ([Message (Inr panini) ''a'' 1, ClickButton ''Mark as Complete''] @ clicks_after))
       = Inr [''completed'']"
proof -
  let ?t = "\<lparr>id_t = ''a'', orderNumber = 101, recipe = panini, status = ''completed'', timestamp = 1\<rparr>"
  let ?evs = "[Message (Inr panini) ''a'' 1, ClickButton ''Mark as Complete'']"
  have mem: "?t \<in> set (orders one_completed)"
    by (simp add: one_completed_state)
  have c: "status ?t = ''completed''"
    by simp
  have sel: "selectedOrder (rendered one_completed) = Some ?t"
    by (simp add: one_completed_state)
  have more: "map_sum id (map status \<circ> orders) (run (?evs @ completed_then_more))
                = Inr [''completed'', ''completed'']"
    by (simp add: completed_then_more_def run_defs)
  have after: "map_sum id (map status \<circ> orders) (run (?evs @ clicks_after)) = Inr [''completed'']"
    by (simp add: clicks_after_def run_defs)
  have loc: "list_all local_event clicks_after"
    by (simp add: clicks_after_def)
  from more obtain s' where s': "run (?evs @ completed_then_more) = Inr s'"
    by (cases "run (?evs @ completed_then_more)") simp_all
  show ?thesis
    using one_completed_reached mem sel more after loc
      completed_is_terminal [OF one_completed_reached mem c,
        where c = "''Start Cooking''" and evs' = completed_then_more and s' = s']
      completed_is_terminal [OF one_completed_reached mem c, where evs' = clicks_after]
    by (simp add: s')
qed

end
